theory Spec2Isabelle
  imports Main
begin

section \<open>The directory adapter (src/moira.ts)\<close>

subsection \<open>Data model\<close>

text \<open>
  The member type tag of the directory service, and the three interfaces of the
  adapter. The record fields carry a prefix (\<open>lm_\<close>, \<open>la_\<close>, \<open>ua_\<close>) because the
  interfaces share field names (\<open>modby\<close>, \<open>modtime\<close>, \<open>modwith\<close>) and some of them
  (\<open>member\<close>, \<open>last\<close>, \<open>group\<close>) are constants of HOL.
\<close>

datatype MemberType = USER | LIST | STRING | KERBEROS

record ListMember =
  lm_list :: string
  lm_member :: string
  lm_type :: MemberType

record ListAttributes =
  la_aceName :: string
  la_aceType :: MemberType
  la_activeList :: bool
  la_description :: string
  la_gid :: string
  la_group :: bool
  la_hiddenList :: bool
  la_listName :: string
  la_mailList :: bool
  la_mailman :: bool
  la_mailmanServer :: string
  la_memaceName :: string
  la_memaceType :: MemberType
  la_modby :: string
  la_modtime :: string
  la_modwith :: string
  la_nfsgroup :: bool
  la_pacsList :: bool
  la_publicList :: bool

record UserAttributes =
  ua_comment :: string
  ua_created :: string
  ua_creator :: string
  ua_first :: string
  ua_last :: string
  ua_middle :: string
  ua_mitid :: string
  ua_modby :: string
  ua_modtime :: string
  ua_modwith :: string
  ua_secure :: string
  ua_shell :: string
  ua_signature :: string
  ua_state :: string
  ua_uclass :: string
  ua_uid :: string
  ua_userName :: string
  ua_winconsoleshell :: string
  ua_winhomedir :: string
  ua_winprofiledir :: string

text \<open>
  The two ways a call can throw: the adapter's own \<open>NoAPIResult\<close> (with its message),
  and the \<open>TypeError\<close> of JavaScript when a property is read from, or a method called
  on, \<open>undefined\<close> or \<open>null\<close>.
\<close>

datatype error = NoAPIResult string | TypeError

text \<open>
  \<open>result[0]\<close> of a remote call, the top-level response payload: \<open>None\<close> when it is
  \<open>null\<close> or \<open>undefined\<close>, otherwise an object, a map from field names to values
  (a field that is missing, hence \<open>undefined\<close>, is \<open>None\<close>).
\<close>

type_synonym 'a payload = "(string \<rightharpoonup> 'a) option"

text \<open>
  The remote service, as the SOAP client presents it: one function for each operation
  the adapter calls, from the arguments of the call to \<open>result[0]\<close>.
\<close>

record Client =
  getListMembershipAsync :: "string \<Rightarrow> bool \<Rightarrow> nat \<Rightarrow> ListMember list payload"
  getListAttributesAsync :: "string \<Rightarrow> ListAttributes list payload"
  getUserAttributesAsync :: "string \<Rightarrow> UserAttributes list payload"
  getUserListsAsync :: "string \<Rightarrow> MemberType \<Rightarrow> string list payload"

subsection \<open>Strings of JavaScript\<close>

text \<open>\<open>s.startsWith(p)\<close>.\<close>

definition startsWith :: "string \<Rightarrow> string \<Rightarrow> bool" where
  "startsWith s p = (take (length p) s = p)"

text \<open>\<open>s.split(c)\<close> for a separator of one character: never the empty array.\<close>

fun split :: "string \<Rightarrow> char \<Rightarrow> string list" where
  "split [] c = [[]]"
| "split (x # xs) c =
     (if x = c then [] # split xs c
      else (case split xs c of [] \<Rightarrow> [[x]] | y # ys \<Rightarrow> (x # y) # ys))"

text \<open>\<open>s.replace(pat, rep)\<close> for a string pattern: the first occurrence only.\<close>

fun replace :: "string \<Rightarrow> string \<Rightarrow> string \<Rightarrow> string" where
  "replace [] pat rep = (if pat = [] then rep else [])"
| "replace (c # cs) pat rep =
     (if startsWith (c # cs) pat then rep @ drop (length pat) (c # cs)
      else c # replace cs pat rep)"

text \<open>\<open>xs.join(sep)\<close>.\<close>

fun join :: "string list \<Rightarrow> string \<Rightarrow> string" where
  "join [] sep = []"
| "join [x] sep = x"
| "join (x # y # ys) sep = x @ sep @ join (y # ys) sep"

subsection \<open>The queries\<close>

definition apiCall :: "string \<Rightarrow> 'a payload \<Rightarrow> error + 'a option" where
  "apiCall method result0 =
     (case result0 of
        None \<Rightarrow> Inl (NoAPIResult (method @ '' didn't return anything!''))
      | Some obj \<Rightarrow> Inr (obj (method @ ''Return'')))"

definition getMembersOfList :: "Client \<Rightarrow> string \<Rightarrow> bool \<Rightarrow> error + ListMember list option" where
  "getMembersOfList client listName recursiveSearch =
     apiCall ''getListMembership'' (getListMembershipAsync client listName recursiveSearch 0)"

text \<open>The closure \<open>filterByType\<close> of \<open>getMITMembersOfList\<close>.\<close>

definition filterByType :: "ListMember list \<Rightarrow> MemberType \<Rightarrow> string list" where
  "filterByType allMembers ty = map lm_member (filter (\<lambda>member. lm_type member = ty) allMembers)"

text \<open>
  One turn of the loop over the KERBEROS members; \<open>athenaUsers.push(kerb)\<close> appends.
  The destructuring \<open>[kerb, extension]\<close> reads the first two fields of the split, and
  \<open>extension\<close> is \<open>undefined\<close>, equal to no string, when there is one field only.
\<close>

definition destructure2 :: "string list \<Rightarrow> (string \<times> string) option" where
  "destructure2 parts =
     (case parts of kerb # extension # _ \<Rightarrow> Some (kerb, extension) | _ \<Rightarrow> None)"

definition athenaStep :: "string list \<Rightarrow> string \<Rightarrow> string list" where
  "athenaStep athenaUsers user =
     (if CHR ''/'' \<in> set user then
        (case destructure2 (split user (CHR ''/'')) of
           Some (kerb, extension) \<Rightarrow>
             if extension = ''root@ATHENA.MIT.EDU'' then athenaUsers @ [kerb] else athenaUsers
         | None \<Rightarrow> athenaUsers)
      else
        (case destructure2 (split user (CHR ''@'')) of
           Some (kerb, extension) \<Rightarrow>
             if extension = ''ATHENA.MIT.EDU'' \<or> extension = ''MIT.EDU''
             then athenaUsers @ [kerb] else athenaUsers
         | None \<Rightarrow> athenaUsers))"

definition getMITMembersOfList :: "Client \<Rightarrow> string \<Rightarrow> error + string list" where
  "getMITMembersOfList client listName =
     (case getMembersOfList client listName True of
        Inl e \<Rightarrow> Inl e
      | Inr None \<Rightarrow> Inl TypeError
      | Inr (Some allMembers) \<Rightarrow>
          (let kerbs = filterByType allMembers USER;
               athenaUsers = foldl athenaStep [] (filterByType allMembers KERBEROS)
           in Inr (kerbs @ athenaUsers)))"

text \<open>
  \<open>(await this.apiCall(...))[0]\<close>: a TypeError on \<open>undefined\<close>, \<open>undefined\<close> on the
  empty array, the first element otherwise.
\<close>

definition index0 :: "'a list option \<Rightarrow> error + 'a option" where
  "index0 r = (case r of None \<Rightarrow> Inl TypeError | Some [] \<Rightarrow> Inr None | Some (x # _) \<Rightarrow> Inr (Some x))"

definition getListAttributes :: "Client \<Rightarrow> string \<Rightarrow> error + ListAttributes option" where
  "getListAttributes client listName =
     (case apiCall ''getListAttributes'' (getListAttributesAsync client listName) of
        Inl e \<Rightarrow> Inl e
      | Inr r \<Rightarrow> index0 r)"

definition getUserAttributes :: "Client \<Rightarrow> string \<Rightarrow> error + UserAttributes option" where
  "getUserAttributes client kerb =
     (case apiCall ''getUserAttributes'' (getUserAttributesAsync client kerb) of
        Inl e \<Rightarrow> Inl e
      | Inr r \<Rightarrow> index0 r)"

definition getUserName :: "Client \<Rightarrow> string \<Rightarrow> error + string" where
  "getUserName client kerb =
     (case getUserAttributes client kerb of
        Inl e \<Rightarrow> Inl e
      | Inr None \<Rightarrow> Inl TypeError
      | Inr (Some attributes) \<Rightarrow>
          Inr (replace (ua_first attributes @ '' '' @ ua_middle attributes @ '' '' @ ua_last attributes)
                 ''  '' '' ''))"

definition getUserLists :: "Client \<Rightarrow> string \<Rightarrow> error + string list option" where
  "getUserLists client kerb = apiCall ''getUserLists'' (getUserListsAsync client kerb USER)"

definition getUserClasses :: "Client \<Rightarrow> string \<Rightarrow> error + string list" where
  "getUserClasses client kerb =
     (case getUserLists client kerb of
        Inl e \<Rightarrow> Inl e
      | Inr None \<Rightarrow> Inl TypeError
      | Inr (Some userLists) \<Rightarrow> Inr (filter (\<lambda>name. startsWith name ''canvas'') userLists))"

section \<open>The bot (the two command handlers)\<close>

subsection \<open>Events and replies\<close>

text \<open>
  An inbound event \<open>{ sender, content: { msgtype, body } }\<close>. The handlers guard
  against a missing \<open>content\<close> (\<open>?.\<close>), compare \<open>msgtype\<close> with \<open>!==\<close> and, in one
  of them, guard against a missing \<open>body\<close>: each of the three is optional here
  (\<open>None\<close> for \<open>undefined\<close>), and a \<open>msgtype\<close> or \<open>body\<close> that is there is a
  string.
\<close>

record Content =
  msgtype :: "string option"
  body :: "string option"

record Event =
  sender :: string
  content :: "Content option"

text \<open>
  The calls a handler makes on the chat client: what it does is the list of these calls,
  in order, the empty list when it returns without replying.
\<close>

datatype action = ReplyNotice string Event string

text \<open>
  What a handler reads from outside: the bot's own identifier
  (\<open>client.getUserId()\<close>) and the directory service.
\<close>

record Env =
  userId :: string
  moira :: Client

subsection \<open>Identity extraction\<close>

text \<open>
  \<open>username.match(/@(.+):.+/)![1]\<close>. The expression has no anchor, so the search tries
  every \<open>@\<close> of the string from the left. After the \<open>@\<close> the group \<open>(.+)\<close> is greedy:
  it first takes the whole run of characters that \<open>.\<close> accepts (all but the line
  terminators; of those a \<open>char\<close> can be line feed or carriage return), then gives
  characters back one at a time until \<open>:.+\<close> matches what follows, or fails when it
  would have to be empty. No match gives \<open>null\<close>, and \<open>null[1]\<close> is a TypeError.
\<close>

definition dot :: "char \<Rightarrow> bool" where
  "dot c = (c \<noteq> CHR 0x0A \<and> c \<noteq> CHR 0x0D)"

definition colonDots :: "string \<Rightarrow> bool" where
  "colonDots r = (case r of c # d # _ \<Rightarrow> c = CHR '':'' \<and> dot d | _ \<Rightarrow> False)"

fun backtrack :: "nat \<Rightarrow> string \<Rightarrow> string option" where
  "backtrack 0 t = None"
| "backtrack (Suc n) t =
     (if colonDots (drop (Suc n) t) then Some (take (Suc n) t) else backtrack n t)"

definition matchAfterAt :: "string \<Rightarrow> string option" where
  "matchAfterAt t = backtrack (length (takeWhile dot t)) t"

fun matchLocalpart :: "string \<Rightarrow> string option" where
  "matchLocalpart [] = None"
| "matchLocalpart (c # cs) =
     (if c = CHR ''@'' then
        (case matchAfterAt cs of Some g \<Rightarrow> Some g | None \<Rightarrow> matchLocalpart cs)
      else matchLocalpart cs)"

definition extractLocalpart :: "string \<Rightarrow> error + string" where
  "extractLocalpart username =
     (case matchLocalpart username of None \<Rightarrow> Inl TypeError | Some g \<Rightarrow> Inr g)"

subsection \<open>The handlers\<close>

text \<open>\<open>event['content']?.['msgtype']\<close>.\<close>

definition contentMsgtype :: "Event \<Rightarrow> string option" where
  "contentMsgtype event = (case content event of None \<Rightarrow> None | Some c \<Rightarrow> msgtype c)"

text \<open>
  \<open>event['content']['body']\<close>, read after the \<open>msgtype\<close> check, where \<open>content\<close> is
  there.
\<close>

definition contentBody :: "Event \<Rightarrow> string option" where
  "contentBody event = (case content event of None \<Rightarrow> None | Some c \<Rightarrow> body c)"

text \<open>
  Both files call their handler \<open>handleCommand\<close>. \<open>handleCommand_hello\<close> is the one
  of the file without the directory, which knows \<open>!hello\<close> only;
  \<open>body?.startsWith\<close> is \<open>undefined\<close> on a missing body, and the handler returns.
\<close>

definition handleCommand_hello :: "Env \<Rightarrow> string \<Rightarrow> Event \<Rightarrow> error + action list" where
  "handleCommand_hello env roomId event =
     (if contentMsgtype event \<noteq> Some ''m.text'' then Inr []
      else if sender event = userId env then Inr []
      else (case contentBody event of
              None \<Rightarrow> Inr []
            | Some b \<Rightarrow>
                if \<not> startsWith b ''!hello'' then Inr []
                else Inr [ReplyNotice roomId event ''Hello world!'']))"

text \<open>
  The handler with the directory commands. It extracts the user name before it looks
  at the body, and calls \<open>body.startsWith\<close> without a guard: a TypeError on a
  missing body.
\<close>

definition handleCommand :: "Env \<Rightarrow> string \<Rightarrow> Event \<Rightarrow> error + action list" where
  "handleCommand env roomId event =
     (if contentMsgtype event \<noteq> Some ''m.text'' then Inr []
      else if sender event = userId env then Inr []
      else (case extractLocalpart (sender event) of
              Inl e \<Rightarrow> Inl e
            | Inr username \<Rightarrow>
                (case contentBody event of
                   None \<Rightarrow> Inl TypeError
                 | Some b \<Rightarrow>
                     if startsWith b ''!hello'' then
                       Inr [ReplyNotice roomId event ''Hello world!'']
                     else if startsWith b ''!myclasses'' then
                       (case getUserClasses (moira env) username of
                          Inl e \<Rightarrow> Inl e
                        | Inr classes \<Rightarrow>
                            (let currentClasses =
                                   filter (\<lambda>name. startsWith name ''canvas-2023'') classes
                             in Inr [ReplyNotice roomId event (join currentClasses [CHR 0x0A])]))
                     else if startsWith b ''!myname'' then
                       (case getUserName (moira env) username of
                          Inl e \<Rightarrow> Inl e
                        | Inr name \<Rightarrow> Inr [ReplyNotice roomId event name])
                     else Inr [])))"

section \<open>Predicates and inputs of the properties\<close>

subsection \<open>Predicates\<close>


text \<open>
  The forms of a KERBEROS member, read off its text and not off the split: a kerb,
  without \<open>/\<close> and without \<open>@\<close>, followed by one of a list of suffixes.
  \<open>statedForms\<close> follows the words of the specification, the two forms
  \<open>kerb/root@REALM\<close> and \<open>kerb@REALM\<close> with each of the two realms;
  \<open>acceptedForms\<close> leaves out \<open>/root@MIT.EDU\<close>.
\<close>

definition stripSuffix :: "string \<Rightarrow> string \<Rightarrow> string option" where
  "stripSuffix suf u =
     (if length suf \<le> length u \<and> drop (length u - length suf) u = suf
      then Some (take (length u - length suf) u) else None)"

definition bareKerb :: "string \<Rightarrow> bool" where
  "bareKerb k = (CHR ''/'' \<notin> set k \<and> CHR ''@'' \<notin> set k)"

fun formKerb :: "string list \<Rightarrow> string \<Rightarrow> string option" where
  "formKerb [] u = None"
| "formKerb (suf # sufs) u =
     (case stripSuffix suf u of
        Some k \<Rightarrow> if bareKerb k then Some k else formKerb sufs u
      | None \<Rightarrow> formKerb sufs u)"

definition statedForms :: "string list" where
  "statedForms =
     [''/root@ATHENA.MIT.EDU'', ''/root@MIT.EDU'', ''@ATHENA.MIT.EDU'', ''@MIT.EDU'']"

definition acceptedForms :: "string list" where
  "acceptedForms = [''/root@ATHENA.MIT.EDU'', ''@ATHENA.MIT.EDU'', ''@MIT.EDU'']"

text \<open>A member with at most one \<open>/\<close> and at most one \<open>@\<close>.\<close>

definition plainMember :: "string \<Rightarrow> bool" where
  "plainMember u = (count_list u (CHR ''/'') \<le> 1 \<and> count_list u (CHR ''@'') \<le> 1)"

text \<open>Two spaces in a row somewhere in a string.\<close>

fun doubleSpace :: "string \<Rightarrow> bool" where
  "doubleSpace (a # b # r) = ((a = CHR '' '' \<and> b = CHR '' '') \<or> doubleSpace (b # r))"
| "doubleSpace _ = False"

text \<open>
  The kerb a KERBEROS member yields, read off its text and not off the split. The first
  field is what stands before the first separator, the second field what stands
  between the first separator and the next one (or the end). A member with a \<open>/\<close>
  is accepted when its second \<open>/\<close>-field is \<open>root@ATHENA.MIT.EDU\<close>, a member
  without \<open>/\<close> when its second \<open>@\<close>-field is \<open>ATHENA.MIT.EDU\<close> or \<open>MIT.EDU\<close>;
  the kerb is the first field.
\<close>

definition firstField :: "char \<Rightarrow> string \<Rightarrow> string" where
  "firstField c u = takeWhile (\<lambda>x. x \<noteq> c) u"

definition secondField :: "char \<Rightarrow> string \<Rightarrow> string option" where
  "secondField c u =
     (case dropWhile (\<lambda>x. x \<noteq> c) u of
        [] \<Rightarrow> None
      | _ # r \<Rightarrow> Some (takeWhile (\<lambda>x. x \<noteq> c) r))"

definition derivedKerb :: "string \<Rightarrow> string option" where
  "derivedKerb u =
     (if CHR ''/'' \<in> set u then
        (if secondField (CHR ''/'') u = Some ''root@ATHENA.MIT.EDU''
         then Some (firstField (CHR ''/'') u) else None)
      else
        (if secondField (CHR ''@'') u = Some ''ATHENA.MIT.EDU''
            \<or> secondField (CHR ''@'') u = Some ''MIT.EDU''
         then Some (firstField (CHR ''@'') u) else None))"

subsection \<open>Services\<close>

text \<open>
  A service whose every response is \<open>null\<close>, one that answers every query with the
  empty collection, and one whose responses are objects without any field.
\<close>

definition nullClient :: Client where
  "nullClient =
     \<lparr>getListMembershipAsync = (\<lambda>listName recursiveSearch maxReturnCount. None),
      getListAttributesAsync = (\<lambda>listName. None),
      getUserAttributesAsync = (\<lambda>memberID. None),
      getUserListsAsync = (\<lambda>memberID memberType. None)\<rparr>"

definition emptyClient :: Client where
  "emptyClient =
     \<lparr>getListMembershipAsync =
        (\<lambda>listName recursiveSearch maxReturnCount. Some [''getListMembershipReturn'' \<mapsto> []]),
      getListAttributesAsync = (\<lambda>listName. Some [''getListAttributesReturn'' \<mapsto> []]),
      getUserAttributesAsync = (\<lambda>memberID. Some [''getUserAttributesReturn'' \<mapsto> []]),
      getUserListsAsync = (\<lambda>memberID memberType. Some [''getUserListsReturn'' \<mapsto> []])\<rparr>"


text \<open>A service where every user is on the same three lists.\<close>

definition classesClient :: Client where
  "classesClient =
     \<lparr>getListMembershipAsync = (\<lambda>listName recursiveSearch maxReturnCount. None),
      getListAttributesAsync = (\<lambda>listName. None),
      getUserAttributesAsync = (\<lambda>memberID. None),
      getUserListsAsync = (\<lambda>memberID memberType.
        Some [''getUserListsReturn'' \<mapsto>
                [''canvas-2023-6.004'', ''sipb-board'', ''canvas-archive'']])\<rparr>"

text \<open>A service whose membership query answers with a given list of members.\<close>

definition membersClient :: "ListMember list \<Rightarrow> Client" where
  "membersClient members =
     \<lparr>getListMembershipAsync =
        (\<lambda>listName recursiveSearch maxReturnCount.
           Some [''getListMembershipReturn'' \<mapsto> members]),
      getListAttributesAsync = (\<lambda>listName. None),
      getUserAttributesAsync = (\<lambda>memberID. None),
      getUserListsAsync = (\<lambda>memberID memberType. None)\<rparr>"

text \<open>
  The three members of the example; members of the two types in turn; a member
  \<open>kerb/root@MIT.EDU\<close>.
\<close>

definition exampleMembers :: "ListMember list" where
  "exampleMembers =
     [\<lparr>lm_list = ''sipb'', lm_member = ''abc'', lm_type = USER\<rparr>,
      \<lparr>lm_list = ''sipb'', lm_member = ''xyz/root@ATHENA.MIT.EDU'', lm_type = KERBEROS\<rparr>,
      \<lparr>lm_list = ''sipb'', lm_member = ''foo@CORP.EXAMPLE'', lm_type = KERBEROS\<rparr>]"

definition mixedMembers :: "ListMember list" where
  "mixedMembers =
     [\<lparr>lm_list = ''sipb'', lm_member = ''ann@MIT.EDU'', lm_type = KERBEROS\<rparr>,
      \<lparr>lm_list = ''sipb'', lm_member = ''bob'', lm_type = USER\<rparr>,
      \<lparr>lm_list = ''sipb'', lm_member = ''eve@CORP.EXAMPLE'', lm_type = KERBEROS\<rparr>,
      \<lparr>lm_list = ''sipb'', lm_member = ''sipb-office'', lm_type = LIST\<rparr>,
      \<lparr>lm_list = ''sipb'', lm_member = ''cat/root@ATHENA.MIT.EDU'', lm_type = KERBEROS\<rparr>,
      \<lparr>lm_list = ''sipb'', lm_member = ''fay/root@MIT.EDU'', lm_type = KERBEROS\<rparr>,
      \<lparr>lm_list = ''sipb'', lm_member = ''dan'', lm_type = USER\<rparr>,
      \<lparr>lm_list = ''sipb'', lm_member = ''hal'', lm_type = KERBEROS\<rparr>,
      \<lparr>lm_list = ''sipb'', lm_member = ''ivy@MIT.EDU@CORP.EXAMPLE'', lm_type = KERBEROS\<rparr>]"

definition rootMitMembers :: "ListMember list" where
  "rootMitMembers =
     [\<lparr>lm_list = ''sipb'', lm_member = ''xyz/root@MIT.EDU'', lm_type = KERBEROS\<rparr>]"

text \<open>A service that knows one user, with the given first, middle and last name.\<close>

definition userRecord :: "string \<Rightarrow> string \<Rightarrow> string \<Rightarrow> UserAttributes" where
  "userRecord f m l =
     \<lparr>ua_comment = '''', ua_created = '''', ua_creator = '''', ua_first = f, ua_last = l,
      ua_middle = m, ua_mitid = '''', ua_modby = '''', ua_modtime = '''', ua_modwith = '''',
      ua_secure = '''', ua_shell = '''', ua_signature = '''', ua_state = '''', ua_uclass = '''',
      ua_uid = '''', ua_userName = '''', ua_winconsoleshell = '''', ua_winhomedir = '''',
      ua_winprofiledir = ''''\<rparr>"

definition userClient :: "UserAttributes \<Rightarrow> Client" where
  "userClient attributes =
     \<lparr>getListMembershipAsync = (\<lambda>listName recursiveSearch maxReturnCount. None),
      getListAttributesAsync = (\<lambda>listName. None),
      getUserAttributesAsync =
        (\<lambda>memberID. Some [''getUserAttributesReturn'' \<mapsto> [attributes]]),
      getUserListsAsync = (\<lambda>memberID memberType. None)\<rparr>"

subsection \<open>The bot and its events\<close>

text \<open>The bot \<open>@bot:example.org\<close> on a given service, and an event with all its fields.\<close>

definition botEnv :: "Client \<Rightarrow> Env" where
  "botEnv client = \<lparr>userId = ''@bot:example.org'', moira = client\<rparr>"

definition textEvent :: "string \<Rightarrow> string \<Rightarrow> string \<Rightarrow> Event" where
  "textEvent from ty b =
     \<lparr>sender = from, content = Some \<lparr>msgtype = Some ty, body = Some b\<rparr>\<rparr>"

section \<open>Properties of the adapter's error handling\<close>

text \<open>
  C6. For each of the four queries \<open>getMembersOfList\<close>, \<open>getListAttributes\<close>,
  \<open>getUserAttributes\<close> and \<open>getUserLists\<close>: when the top-level payload of the response
  is null, the query raises \<open>NoAPIResult\<close>; when the server answers with the empty
  collection, the query raises nothing. The two list queries then return the empty list,
  and the two attribute queries, which read element 0 of the collection, return
  \<open>undefined\<close>.
\<close>

theorem null_payload_raises_empty_collection_answers:
  "(getListMembershipAsync client listName recursiveSearch 0 = None \<longrightarrow>
      getMembersOfList client listName recursiveSearch
        = Inl (NoAPIResult ''getListMembership didn't return anything!''))
   \<and> (getListAttributesAsync client listName = None \<longrightarrow>
      getListAttributes client listName
        = Inl (NoAPIResult ''getListAttributes didn't return anything!''))
   \<and> (getUserAttributesAsync client kerb = None \<longrightarrow>
      getUserAttributes client kerb
        = Inl (NoAPIResult ''getUserAttributes didn't return anything!''))
   \<and> (getUserListsAsync client kerb USER = None \<longrightarrow>
      getUserLists client kerb = Inl (NoAPIResult ''getUserLists didn't return anything!''))
   \<and> (\<forall>obj. getListMembershipAsync client listName recursiveSearch 0 = Some obj
          \<and> obj ''getListMembershipReturn'' = Some [] \<longrightarrow>
      getMembersOfList client listName recursiveSearch = Inr (Some []))
   \<and> (\<forall>obj. getListAttributesAsync client listName = Some obj
          \<and> obj ''getListAttributesReturn'' = Some [] \<longrightarrow>
      getListAttributes client listName = Inr None)
   \<and> (\<forall>obj. getUserAttributesAsync client kerb = Some obj
          \<and> obj ''getUserAttributesReturn'' = Some [] \<longrightarrow>
      getUserAttributes client kerb = Inr None)
   \<and> (\<forall>obj. getUserListsAsync client kerb USER = Some obj
          \<and> obj ''getUserListsReturn'' = Some [] \<longrightarrow>
      getUserLists client kerb = Inr (Some []))"
  by (simp add: getMembersOfList_def getListAttributes_def getUserAttributes_def
      getUserLists_def apiCall_def index0_def)

theorem null_payload_raises_empty_collection_answers_witness:
  "getMembersOfList nullClient ''sipb'' True
     = Inl (NoAPIResult ''getListMembership didn't return anything!'')
   \<and> getListAttributes nullClient ''sipb''
     = Inl (NoAPIResult ''getListAttributes didn't return anything!'')
   \<and> getUserAttributes nullClient ''jdoe''
     = Inl (NoAPIResult ''getUserAttributes didn't return anything!'')
   \<and> getUserLists nullClient ''jdoe''
     = Inl (NoAPIResult ''getUserLists didn't return anything!'')
   \<and> getMembersOfList emptyClient ''sipb'' True = Inr (Some [])
   \<and> getListAttributes emptyClient ''sipb'' = Inr None
   \<and> getUserAttributes emptyClient ''jdoe'' = Inr None
   \<and> getUserLists emptyClient ''jdoe'' = Inr (Some [])"
  using null_payload_raises_empty_collection_answers [of nullClient "''sipb''" True "''jdoe''"]
    null_payload_raises_empty_collection_answers [of emptyClient "''sipb''" True "''jdoe''"]
  by (simp add: nullClient_def emptyClient_def)




section \<open>Properties of the member list\<close>

subsection \<open>Splitting at the first separator\<close>

lemma split_none: "c \<notin> set u \<Longrightarrow> split u c = [u]"
  by (induction u) auto

lemma split_first: "c \<notin> set k \<Longrightarrow> split (k @ c # r) c = k # split r c"
  by (induction k) auto

lemma once_decompose:
  assumes "c \<in> set u" and "count_list u c \<le> 1"
  shows "\<exists>k r. u = k @ c # r \<and> c \<notin> set k \<and> c \<notin> set r"
proof -
  from assms(1) obtain k r where u: "u = k @ c # r" and k: "c \<notin> set k"
    by (meson split_list_first)
  from assms(2) u have "count_list r c = 0" by simp
  then have "c \<notin> set r" by (simp add: count_list_0_iff)
  with u k show ?thesis by blast
qed

subsection \<open>One turn of the loop\<close>

lemma athenaStep_append: "athenaStep acc user = acc @ athenaStep [] user"
  by (simp add: athenaStep_def split: option.splits)

lemma athenaStep_length: "length (athenaStep [] user) \<le> 1"
  by (simp add: athenaStep_def split: option.splits)

lemma foldl_athenaStep:
  "foldl athenaStep acc users = acc @ concat (map (athenaStep []) users)"
proof (induction users arbitrary: acc)
  case Nil
  then show ?case by simp
next
  case (Cons u us)
  have "foldl athenaStep acc (u # us) = foldl athenaStep (athenaStep acc u) us" by simp
  also have "\<dots> = athenaStep acc u @ concat (map (athenaStep []) us)" by (rule Cons.IH)
  also have "\<dots> = acc @ athenaStep [] u @ concat (map (athenaStep []) us)"
    using athenaStep_append [of acc u] by simp
  finally show ?case by simp
qed

lemma athenaStep_slash:
  assumes "CHR ''/'' \<notin> set k"
  shows "athenaStep [] (k @ CHR ''/'' # r)
           = (case split r (CHR ''/'') of
                extension # _ \<Rightarrow> if extension = ''root@ATHENA.MIT.EDU'' then [k] else []
              | [] \<Rightarrow> [])"
  using assms by (simp add: athenaStep_def split_first destructure2_def split: list.splits)

lemma athenaStep_at:
  assumes "CHR ''/'' \<notin> set k" and "CHR ''/'' \<notin> set r" and "CHR ''@'' \<notin> set k"
  shows "athenaStep [] (k @ CHR ''@'' # r)
           = (case split r (CHR ''@'') of
                extension # _ \<Rightarrow>
                  if extension = ''ATHENA.MIT.EDU'' \<or> extension = ''MIT.EDU'' then [k] else []
              | [] \<Rightarrow> [])"
  using assms by (simp add: athenaStep_def split_first destructure2_def split: list.splits)

lemma athenaStep_no_separator:
  assumes "CHR ''/'' \<notin> set u" and "CHR ''@'' \<notin> set u"
  shows "athenaStep [] u = []"
  using assms by (simp add: athenaStep_def split_none destructure2_def)

subsection \<open>The forms\<close>

lemma stripSuffix_iff: "stripSuffix suf u = Some k \<longleftrightarrow> u = k @ suf"
proof
  assume "stripSuffix suf u = Some k"
  then have "length suf \<le> length u" and "drop (length u - length suf) u = suf"
    and "take (length u - length suf) u = k"
    by (auto simp: stripSuffix_def split: if_splits)
  then show "u = k @ suf" by (metis append_take_drop_id)
next
  assume "u = k @ suf"
  then show "stripSuffix suf u = Some k" by (simp add: stripSuffix_def)
qed

lemma formKerb_sound:
  "formKerb sufs u = Some k \<Longrightarrow> bareKerb k \<and> (\<exists>suf \<in> set sufs. u = k @ suf)"
  by (induction sufs) (auto simp: stripSuffix_iff split: option.splits if_splits)

lemma formKerb_complete:
  "suf \<in> set sufs \<Longrightarrow> bareKerb k \<Longrightarrow> formKerb sufs (k @ suf) \<noteq> None"
proof (induction sufs)
  case Nil
  then show ?case by simp
next
  case (Cons s sufs)
  show ?case
  proof (cases "s = suf")
    case True
    have "stripSuffix suf (k @ suf) = Some k" by (simp add: stripSuffix_iff)
    with True Cons.prems show ?thesis by simp
  next
    case False
    with Cons have "formKerb sufs (k @ suf) \<noteq> None" by simp
    then show ?thesis by (simp split: option.splits)
  qed
qed

lemma acceptedForms_cases:
  assumes "suf \<in> set acceptedForms"
  obtains "suf = CHR ''/'' # ''root@ATHENA.MIT.EDU''"
  | "suf = CHR ''@'' # ''ATHENA.MIT.EDU''"
  | "suf = CHR ''@'' # ''MIT.EDU''"
  using assms by (auto simp: acceptedForms_def)

lemma athenaStep_form:
  assumes "bareKerb k" and "suf \<in> set acceptedForms"
  shows "athenaStep [] (k @ suf) = [k]"
proof -
  from assms(1) have k: "CHR ''/'' \<notin> set k" "CHR ''@'' \<notin> set k"
    by (simp_all add: bareKerb_def)
  from assms(2) show ?thesis
  proof (cases rule: acceptedForms_cases)
    case 1
    have "split ''root@ATHENA.MIT.EDU'' (CHR ''/'') = [''root@ATHENA.MIT.EDU'']"
      by (simp add: split_none)
    with 1 k show ?thesis by (simp add: athenaStep_slash)
  next
    case 2
    have "split ''ATHENA.MIT.EDU'' (CHR ''@'') = [''ATHENA.MIT.EDU'']"
      by (simp add: split_none)
    with 2 k show ?thesis by (simp add: athenaStep_at)
  next
    case 3
    have "split ''MIT.EDU'' (CHR ''@'') = [''MIT.EDU'']"
      by (simp add: split_none)
    with 3 k show ?thesis by (simp add: athenaStep_at)
  qed
qed

lemma athenaStep_plain:
  assumes "plainMember u" and "athenaStep [] u \<noteq> []"
  shows "\<exists>k suf. bareKerb k \<and> suf \<in> set acceptedForms \<and> u = k @ suf"
proof (cases "CHR ''/'' \<in> set u")
  case True
  with assms(1) obtain k r where u: "u = k @ CHR ''/'' # r"
    and k: "CHR ''/'' \<notin> set k" and r: "CHR ''/'' \<notin> set r"
    using once_decompose [of "CHR ''/''" u] by (auto simp: plainMember_def)
  from r have "split r (CHR ''/'') = [r]" by (rule split_none)
  with assms(2) u k have root: "r = ''root@ATHENA.MIT.EDU''"
    by (auto simp: athenaStep_slash split: if_splits)
  from assms(1) u root have "count_list k (CHR ''@'') = 0"
    by (simp add: plainMember_def)
  then have "CHR ''@'' \<notin> set k" by (simp add: count_list_0_iff)
  with k have "bareKerb k" by (simp add: bareKerb_def)
  moreover have "CHR ''/'' # r \<in> set acceptedForms"
    using root by (simp add: acceptedForms_def)
  ultimately show ?thesis using u by blast
next
  case False
  show ?thesis
  proof (cases "CHR ''@'' \<in> set u")
    case True
    with assms(1) obtain k r where u: "u = k @ CHR ''@'' # r"
      and k: "CHR ''@'' \<notin> set k" and r: "CHR ''@'' \<notin> set r"
      using once_decompose [of "CHR ''@''" u] by (auto simp: plainMember_def)
    from False u have nk: "CHR ''/'' \<notin> set k" and nr: "CHR ''/'' \<notin> set r" by simp_all
    from r have "split r (CHR ''@'') = [r]" by (rule split_none)
    with assms(2) u k nk nr have "r = ''ATHENA.MIT.EDU'' \<or> r = ''MIT.EDU''"
      by (auto simp: athenaStep_at split: if_splits)
    then have "CHR ''@'' # r \<in> set acceptedForms"
      by (auto simp: acceptedForms_def)
    moreover from k nk have "bareKerb k" by (simp add: bareKerb_def)
    ultimately show ?thesis using u by blast
  next
    case no_at: False
    with False have "athenaStep [] u = []" by (simp add: athenaStep_no_separator)
    with assms(2) show ?thesis by simp
  qed
qed

lemma athenaStep_formKerb:
  assumes "plainMember u"
  shows "athenaStep [] u = (case formKerb acceptedForms u of None \<Rightarrow> [] | Some k \<Rightarrow> [k])"
proof (cases "formKerb acceptedForms u")
  case (Some k)
  then have "bareKerb k \<and> (\<exists>suf \<in> set acceptedForms. u = k @ suf)"
    by (rule formKerb_sound)
  then have "athenaStep [] u = [k]" by (auto simp: athenaStep_form)
  with Some show ?thesis by simp
next
  case None
  have "athenaStep [] u = []"
  proof (rule ccontr)
    assume "athenaStep [] u \<noteq> []"
    with assms obtain k suf where "bareKerb k" "suf \<in> set acceptedForms" "u = k @ suf"
      using athenaStep_plain by blast
    then have "formKerb acceptedForms u \<noteq> None" by (simp add: formKerb_complete)
    with None show False by simp
  qed
  with None show ?thesis by simp
qed

lemma concat_athenaStep_formKerb:
  assumes "\<forall>u \<in> set users. plainMember u"
  shows "concat (map (athenaStep []) users) = List.map_filter (formKerb acceptedForms) users"
  using assms
proof (induction users)
  case Nil
  then show ?case by simp
next
  case (Cons u us)
  then have "plainMember u" by simp
  then have "athenaStep [] u = (case formKerb acceptedForms u of None \<Rightarrow> [] | Some k \<Rightarrow> [k])"
    by (rule athenaStep_formKerb)
  with Cons show ?case by (simp split: option.splits)
qed

lemma getMITMembersOfList_concat:
  assumes "getMembersOfList client listName True = Inr (Some allMembers)"
  shows "getMITMembersOfList client listName
           = Inr (filterByType allMembers USER
                  @ concat (map (athenaStep []) (filterByType allMembers KERBEROS)))"
  using assms by (simp add: getMITMembersOfList_def foldl_athenaStep)

lemma getMembersOfList_membersClient:
  "getMembersOfList (membersClient members) listName recursiveSearch = Inr (Some members)"
  by (simp add: getMembersOfList_def apiCall_def membersClient_def)

lemma formKerb_accepted_iff:
  "formKerb acceptedForms u = Some k
     \<longleftrightarrow> bareKerb k \<and> (\<exists>suf \<in> set acceptedForms. u = k @ suf)"
proof
  assume "formKerb acceptedForms u = Some k"
  then show "bareKerb k \<and> (\<exists>suf \<in> set acceptedForms. u = k @ suf)"
    by (rule formKerb_sound)
next
  assume h: "bareKerb k \<and> (\<exists>suf \<in> set acceptedForms. u = k @ suf)"
  then have step: "athenaStep [] u = [k]" by (auto simp: athenaStep_form)
  from h obtain suf where "suf \<in> set acceptedForms" and "u = k @ suf" and "bareKerb k"
    by blast
  then have "formKerb acceptedForms u \<noteq> None" by (simp add: formKerb_complete)
  then obtain k' where k': "formKerb acceptedForms u = Some k'" by blast
  then have "bareKerb k' \<and> (\<exists>suf \<in> set acceptedForms. u = k' @ suf)"
    by (rule formKerb_sound)
  then have "athenaStep [] u = [k']" by (auto simp: athenaStep_form)
  with step k' show "formKerb acceptedForms u = Some k" by simp
qed

lemma formKerb_accepted_forms:
  "formKerb acceptedForms u = Some k
     \<longleftrightarrow> bareKerb k
         \<and> (u = k @ ''/root@ATHENA.MIT.EDU'' \<or> u = k @ ''@ATHENA.MIT.EDU''
              \<or> u = k @ ''@MIT.EDU'')"
  unfolding formKerb_accepted_iff by (auto simp: acceptedForms_def)

lemma set_map_filter: "set (List.map_filter f xs) = {y. \<exists>x \<in> set xs. f x = Some y}"
  by (induction xs) (auto split: option.splits)

text \<open>
  The destructuring reads the first two fields of the split and no more: a member with
  a second separator after an accepted realm is accepted too. This is why the property
  by form below is about members with at most one \<open>/\<close> and one \<open>@\<close>.
\<close>

lemma athenaStep_second_separator:
  "athenaStep [] ''foo@MIT.EDU@CORP.EXAMPLE'' = [''foo'']
   \<and> athenaStep [] ''foo/root@ATHENA.MIT.EDU/admin'' = [''foo'']"
  by (simp add: athenaStep_def destructure2_def)

subsection \<open>The kerb of a member, off its text\<close>

lemma takeWhile_none: "c \<notin> set u \<Longrightarrow> takeWhile (\<lambda>x. x \<noteq> c) u = u"
  by (induction u) auto

lemma dropWhile_none: "c \<notin> set u \<Longrightarrow> dropWhile (\<lambda>x. x \<noteq> c) u = []"
  by (induction u) auto

lemma takeWhile_first: "c \<notin> set k \<Longrightarrow> takeWhile (\<lambda>x. x \<noteq> c) (k @ c # r) = k"
  by (induction k) auto

lemma dropWhile_first: "c \<notin> set k \<Longrightarrow> dropWhile (\<lambda>x. x \<noteq> c) (k @ c # r) = c # r"
  by (induction k) auto

lemma first_decompose:
  assumes "c \<in> set u"
  shows "\<exists>k r. u = k @ c # r \<and> c \<notin> set k"
  using assms by (meson split_list_first)

lemma split_head: "\<exists>rest. split r c = takeWhile (\<lambda>x. x \<noteq> c) r # rest"
proof (cases "c \<in> set r")
  case False
  then have "split r c = [r]" by (rule split_none)
  moreover from False have "takeWhile (\<lambda>x. x \<noteq> c) r = r" by (rule takeWhile_none)
  ultimately have "split r c = takeWhile (\<lambda>x. x \<noteq> c) r # []" by (simp only:)
  then show ?thesis ..
next
  case True
  from first_decompose [OF True] obtain k r' where r: "r = k @ c # r'" and k: "c \<notin> set k"
    by blast
  from k have "split (k @ c # r') c = k # split r' c" by (rule split_first)
  moreover from k have "takeWhile (\<lambda>x. x \<noteq> c) (k @ c # r') = k" by (rule takeWhile_first)
  ultimately have "split r c = takeWhile (\<lambda>x. x \<noteq> c) r # split r' c"
    unfolding r by (simp only:)
  then show ?thesis ..
qed

lemma destructure2_split:
  "destructure2 (split u c)
     = (case secondField c u of None \<Rightarrow> None | Some e \<Rightarrow> Some (firstField c u, e))"
proof (cases "c \<in> set u")
  case False
  then have "split u c = [u]" by (rule split_none)
  moreover from False have "secondField c u = None"
    by (simp add: secondField_def dropWhile_none)
  ultimately show ?thesis by (simp add: destructure2_def)
next
  case True
  from first_decompose [OF True] obtain k r where u: "u = k @ c # r" and k: "c \<notin> set k"
    by blast
  obtain rest where rest: "split r c = takeWhile (\<lambda>x. x \<noteq> c) r # rest"
    using split_head [of r c] by blast
  from k have "split (k @ c # r) c = k # split r c" by (rule split_first)
  with rest u have s: "destructure2 (split u c) = Some (k, takeWhile (\<lambda>x. x \<noteq> c) r)"
    by (simp add: destructure2_def)
  from k have "firstField c (k @ c # r) = k" by (simp add: firstField_def takeWhile_first)
  moreover from k have "secondField c (k @ c # r) = Some (takeWhile (\<lambda>x. x \<noteq> c) r)"
    by (simp add: secondField_def dropWhile_first)
  ultimately show ?thesis using s u by simp
qed

lemma athenaStep_derivedKerb:
  "athenaStep [] u = (case derivedKerb u of None \<Rightarrow> [] | Some k \<Rightarrow> [k])"
proof (cases "CHR ''/'' \<in> set u")
  case True
  show ?thesis
  proof (cases "secondField (CHR ''/'') u")
    case None
    with True show ?thesis by (simp add: athenaStep_def derivedKerb_def destructure2_split)
  next
    case (Some e)
    with True show ?thesis by (simp add: athenaStep_def derivedKerb_def destructure2_split)
  qed
next
  case False
  show ?thesis
  proof (cases "secondField (CHR ''@'') u")
    case None
    with False show ?thesis by (simp add: athenaStep_def derivedKerb_def destructure2_split)
  next
    case (Some e)
    with False show ?thesis by (simp add: athenaStep_def derivedKerb_def destructure2_split)
  qed
qed

lemma concat_athenaStep_derivedKerb:
  "concat (map (athenaStep []) users) = List.map_filter derivedKerb users"
proof (induction users)
  case Nil
  then show ?case by simp
next
  case (Cons u us)
  have "athenaStep [] u = (case derivedKerb u of None \<Rightarrow> [] | Some k \<Rightarrow> [k])"
    by (rule athenaStep_derivedKerb)
  with Cons show ?case by (simp split: option.splits)
qed

text \<open>
  What the two fields say in terms of the text: the first field \<open>k\<close> and the second
  field \<open>e\<close> of \<open>u\<close> are such that \<open>u\<close> is \<open>k\<close>, the separator, \<open>e\<close>, and then
  nothing or a further separator and more.
\<close>

lemma fields_text:
  assumes "secondField c u = Some e" and "firstField c u = k"
  shows "c \<notin> set k \<and> c \<notin> set e
         \<and> (u = k @ c # e \<or> (\<exists>rest. u = k @ c # e @ c # rest))"
proof -
  have cu: "c \<in> set u"
  proof (rule ccontr)
    assume "c \<notin> set u"
    then have "secondField c u = None" by (simp add: secondField_def dropWhile_none)
    with assms(1) show False by simp
  qed
  from first_decompose [OF cu] obtain k' r where u: "u = k' @ c # r" and k': "c \<notin> set k'"
    by blast
  from k' have "firstField c (k' @ c # r) = k'" by (simp add: firstField_def takeWhile_first)
  with assms(2) u have kk: "k' = k" by simp
  from k' have "secondField c (k' @ c # r) = Some (takeWhile (\<lambda>x. x \<noteq> c) r)"
    by (simp add: secondField_def dropWhile_first)
  with assms(1) u have e: "takeWhile (\<lambda>x. x \<noteq> c) r = e" by simp
  show ?thesis
  proof (cases "c \<in> set r")
    case False
    then have "takeWhile (\<lambda>x. x \<noteq> c) r = r" by (rule takeWhile_none)
    with e have "r = e" by (simp only:)
    with u kk k' False show ?thesis by blast
  next
    case True
    from first_decompose [OF True] obtain e' rest where r: "r = e' @ c # rest"
      and e': "c \<notin> set e'"
      by blast
    from e' have "takeWhile (\<lambda>x. x \<noteq> c) (e' @ c # rest) = e'" by (rule takeWhile_first)
    with e r have "e' = e" by (simp only:)
    with u kk k' r e' show ?thesis by blast
  qed
qed

lemma text_fields:
  assumes "c \<notin> set k" and "c \<notin> set e"
    and "u = k @ c # e \<or> (\<exists>rest. u = k @ c # e @ c # rest)"
  shows "secondField c u = Some e \<and> firstField c u = k"
proof -
  from assms(1) have f: "\<And>r. firstField c (k @ c # r) = k"
    by (simp add: firstField_def takeWhile_first)
  from assms(1) have s: "\<And>r. secondField c (k @ c # r) = Some (takeWhile (\<lambda>x. x \<noteq> c) r)"
    by (simp add: secondField_def dropWhile_first)
  from assms(3) show ?thesis
  proof
    assume u: "u = k @ c # e"
    from assms(2) have "takeWhile (\<lambda>x. x \<noteq> c) e = e" by (rule takeWhile_none)
    with f [of e] s [of e] u show ?thesis by (simp only:)
  next
    assume "\<exists>rest. u = k @ c # e @ c # rest"
    then obtain rest where u: "u = k @ c # e @ c # rest" by blast
    from assms(2) have "takeWhile (\<lambda>x. x \<noteq> c) (e @ c # rest) = e" by (rule takeWhile_first)
    with f [of "e @ c # rest"] s [of "e @ c # rest"] u show ?thesis by (simp only:)
  qed
qed

lemma fields_iff:
  "secondField c u = Some e \<and> firstField c u = k
     \<longleftrightarrow> c \<notin> set k \<and> c \<notin> set e
         \<and> (u = k @ c # e \<or> (\<exists>rest. u = k @ c # e @ c # rest))"
  using fields_text [of c u e k] text_fields [of c k e u] by blast

lemma derivedKerb_iff:
  "derivedKerb u = Some k
     \<longleftrightarrow> (CHR ''/'' \<notin> set k
          \<and> (u = k @ ''/root@ATHENA.MIT.EDU''
               \<or> (\<exists>rest. u = k @ ''/root@ATHENA.MIT.EDU/'' @ rest)))
       \<or> (CHR ''/'' \<notin> set u \<and> CHR ''@'' \<notin> set k
          \<and> (u = k @ ''@ATHENA.MIT.EDU'' \<or> u = k @ ''@MIT.EDU''
               \<or> (\<exists>rest. u = k @ ''@ATHENA.MIT.EDU@'' @ rest)
               \<or> (\<exists>rest. u = k @ ''@MIT.EDU@'' @ rest)))"
proof (cases "CHR ''/'' \<in> set u")
  case True
  have "derivedKerb u = Some k
          \<longleftrightarrow> secondField (CHR ''/'') u = Some ''root@ATHENA.MIT.EDU''
                \<and> firstField (CHR ''/'') u = k"
    using True by (simp add: derivedKerb_def)
  also have "\<dots> \<longleftrightarrow> CHR ''/'' \<notin> set k
          \<and> (u = k @ ''/root@ATHENA.MIT.EDU''
               \<or> (\<exists>rest. u = k @ ''/root@ATHENA.MIT.EDU/'' @ rest))"
    using fields_iff [of "CHR ''/''" u "''root@ATHENA.MIT.EDU''" k] by simp
  finally show ?thesis using True by blast
next
  case False
  have a: "secondField (CHR ''@'') u = Some ''ATHENA.MIT.EDU'' \<and> firstField (CHR ''@'') u = k
          \<longleftrightarrow> CHR ''@'' \<notin> set k
              \<and> (u = k @ ''@ATHENA.MIT.EDU''
                   \<or> (\<exists>rest. u = k @ ''@ATHENA.MIT.EDU@'' @ rest))"
    using fields_iff [of "CHR ''@''" u "''ATHENA.MIT.EDU''" k] by simp
  have m: "secondField (CHR ''@'') u = Some ''MIT.EDU'' \<and> firstField (CHR ''@'') u = k
          \<longleftrightarrow> CHR ''@'' \<notin> set k
              \<and> (u = k @ ''@MIT.EDU'' \<or> (\<exists>rest. u = k @ ''@MIT.EDU@'' @ rest))"
    using fields_iff [of "CHR ''@''" u "''MIT.EDU''" k] by simp
  have "derivedKerb u = Some k
          \<longleftrightarrow> (secondField (CHR ''@'') u = Some ''ATHENA.MIT.EDU''
                  \<and> firstField (CHR ''@'') u = k)
              \<or> (secondField (CHR ''@'') u = Some ''MIT.EDU''
                  \<and> firstField (CHR ''@'') u = k)"
    using False by (simp add: derivedKerb_def)
  also have "\<dots> \<longleftrightarrow> CHR ''@'' \<notin> set k
          \<and> (u = k @ ''@ATHENA.MIT.EDU'' \<or> u = k @ ''@MIT.EDU''
               \<or> (\<exists>rest. u = k @ ''@ATHENA.MIT.EDU@'' @ rest)
               \<or> (\<exists>rest. u = k @ ''@MIT.EDU@'' @ rest))"
    unfolding a m by blast
  finally have r: "derivedKerb u = Some k
          \<longleftrightarrow> CHR ''@'' \<notin> set k
          \<and> (u = k @ ''@ATHENA.MIT.EDU'' \<or> u = k @ ''@MIT.EDU''
               \<or> (\<exists>rest. u = k @ ''@ATHENA.MIT.EDU@'' @ rest)
               \<or> (\<exists>rest. u = k @ ''@MIT.EDU@'' @ rest))" .
  have n: "\<not> (u = k @ ''/root@ATHENA.MIT.EDU''
               \<or> (\<exists>rest. u = k @ ''/root@ATHENA.MIT.EDU/'' @ rest))"
    using False by auto
  from r n False show ?thesis by blast
qed

text \<open>
  C9. The result of \<open>getMITMembersOfList\<close> is the identifiers of the USER members, in
  the order of the member list, followed by the kerbs of the accepted KERBEROS
  members, in the order of the member list. A KERBEROS member \<open>u\<close> is accepted, with
  kerb \<open>k\<close>, exactly when \<open>k\<close> has no \<open>/\<close> and \<open>u\<close> is \<open>k/root@ATHENA.MIT.EDU\<close>,
  alone or followed by a further \<open>/\<close> and more text; or when \<open>u\<close> has no \<open>/\<close>,
  \<open>k\<close> has no \<open>@\<close>, and \<open>u\<close> is \<open>k@ATHENA.MIT.EDU\<close> or \<open>k@MIT.EDU\<close>, alone or
  followed by a further \<open>@\<close> and more text.
\<close>

theorem users_then_kerberos_in_order:
  assumes "getMembersOfList client listName True = Inr (Some allMembers)"
  shows "getMITMembersOfList client listName
           = Inr (map lm_member (filter (\<lambda>m. lm_type m = USER) allMembers)
                  @ List.map_filter derivedKerb
                      (map lm_member (filter (\<lambda>m. lm_type m = KERBEROS) allMembers)))
    \<and> (\<forall>u k. derivedKerb u = Some k
          \<longleftrightarrow> (CHR ''/'' \<notin> set k
               \<and> (u = k @ ''/root@ATHENA.MIT.EDU''
                    \<or> (\<exists>rest. u = k @ ''/root@ATHENA.MIT.EDU/'' @ rest)))
            \<or> (CHR ''/'' \<notin> set u \<and> CHR ''@'' \<notin> set k
               \<and> (u = k @ ''@ATHENA.MIT.EDU'' \<or> u = k @ ''@MIT.EDU''
                    \<or> (\<exists>rest. u = k @ ''@ATHENA.MIT.EDU@'' @ rest)
                    \<or> (\<exists>rest. u = k @ ''@MIT.EDU@'' @ rest))))"
proof
  have "concat (map (athenaStep []) (filterByType allMembers KERBEROS))
          = List.map_filter derivedKerb (filterByType allMembers KERBEROS)"
    by (rule concat_athenaStep_derivedKerb)
  then show "getMITMembersOfList client listName
           = Inr (map lm_member (filter (\<lambda>m. lm_type m = USER) allMembers)
                  @ List.map_filter derivedKerb
                      (map lm_member (filter (\<lambda>m. lm_type m = KERBEROS) allMembers)))"
    using getMITMembersOfList_concat [OF assms] by (simp add: filterByType_def)
  show "\<forall>u k. derivedKerb u = Some k
          \<longleftrightarrow> (CHR ''/'' \<notin> set k
               \<and> (u = k @ ''/root@ATHENA.MIT.EDU''
                    \<or> (\<exists>rest. u = k @ ''/root@ATHENA.MIT.EDU/'' @ rest)))
            \<or> (CHR ''/'' \<notin> set u \<and> CHR ''@'' \<notin> set k
               \<and> (u = k @ ''@ATHENA.MIT.EDU'' \<or> u = k @ ''@MIT.EDU''
                    \<or> (\<exists>rest. u = k @ ''@ATHENA.MIT.EDU@'' @ rest)
                    \<or> (\<exists>rest. u = k @ ''@MIT.EDU@'' @ rest)))"
    using derivedKerb_iff by blast
qed

theorem users_then_kerberos_in_order_witness:
  "getMembersOfList (membersClient mixedMembers) ''sipb'' True = Inr (Some mixedMembers)
   \<and> getMITMembersOfList (membersClient mixedMembers) ''sipb''
       = Inr [''bob'', ''dan'', ''ann'', ''cat'', ''ivy'']
   \<and> derivedKerb ''ann@MIT.EDU'' = Some ''ann''
   \<and> derivedKerb ''eve@CORP.EXAMPLE'' = None
   \<and> derivedKerb ''fay/root@MIT.EDU'' = None
   \<and> derivedKerb ''hal'' = None"
proof -
  have h: "getMembersOfList (membersClient mixedMembers) ''sipb'' True = Inr (Some mixedMembers)"
    by (rule getMembersOfList_membersClient)
  have users: "map lm_member (filter (\<lambda>m. lm_type m = USER) mixedMembers) = [''bob'', ''dan'']"
    by (simp add: mixedMembers_def)
  have members: "map lm_member (filter (\<lambda>m. lm_type m = KERBEROS) mixedMembers)
      = [''ann@MIT.EDU'', ''eve@CORP.EXAMPLE'', ''cat/root@ATHENA.MIT.EDU'',
         ''fay/root@MIT.EDU'', ''hal'', ''ivy@MIT.EDU@CORP.EXAMPLE'']"
    by (simp add: mixedMembers_def)
  have a: "derivedKerb ''ann@MIT.EDU'' = Some ''ann''"
    by (simp add: derivedKerb_def secondField_def firstField_def)
  have e: "derivedKerb ''eve@CORP.EXAMPLE'' = None"
    by (simp add: derivedKerb_def secondField_def firstField_def)
  have c: "derivedKerb ''cat/root@ATHENA.MIT.EDU'' = Some ''cat''"
    by (simp add: derivedKerb_def secondField_def firstField_def)
  have f: "derivedKerb ''fay/root@MIT.EDU'' = None"
    by (simp add: derivedKerb_def secondField_def firstField_def)
  have l: "derivedKerb ''hal'' = None"
    by (simp add: derivedKerb_def secondField_def firstField_def)
  have i: "derivedKerb ''ivy@MIT.EDU@CORP.EXAMPLE'' = Some ''ivy''"
    by (simp add: derivedKerb_def secondField_def firstField_def)
  have kerbs: "List.map_filter derivedKerb
      [''ann@MIT.EDU'', ''eve@CORP.EXAMPLE'', ''cat/root@ATHENA.MIT.EDU'',
       ''fay/root@MIT.EDU'', ''hal'', ''ivy@MIT.EDU@CORP.EXAMPLE'']
      = [''ann'', ''cat'', ''ivy'']"
    by (simp only: List.map_filter_simps a e c f l i option.case)
  from users_then_kerberos_in_order [OF h]
  have "getMITMembersOfList (membersClient mixedMembers) ''sipb''
          = Inr ([''bob'', ''dan''] @ [''ann'', ''cat'', ''ivy''])"
    by (simp only: users members kerbs)
  with h a e f l show ?thesis by simp
qed

text \<open>
  C1, as the code has it. On a member list whose KERBEROS members have at most one
  \<open>/\<close> and at most one \<open>@\<close>, \<open>getMITMembersOfList\<close> returns the identifiers of the
  USER members followed by the kerbs of the KERBEROS members of the form
  \<open>kerb/root@ATHENA.MIT.EDU\<close>, \<open>kerb@ATHENA.MIT.EDU\<close> or \<open>kerb@MIT.EDU\<close>; as a set,
  the union of the two. On the three members of the example the result is \<open>abc\<close>,
  \<open>xyz\<close>.
\<close>

theorem mit_members_by_form:
  assumes "getMembersOfList client listName True = Inr (Some allMembers)"
    and "\<forall>m \<in> set allMembers. lm_type m = KERBEROS \<longrightarrow> plainMember (lm_member m)"
  shows "getMITMembersOfList client listName
           = Inr (map lm_member (filter (\<lambda>m. lm_type m = USER) allMembers)
                  @ List.map_filter (formKerb acceptedForms)
                      (map lm_member (filter (\<lambda>m. lm_type m = KERBEROS) allMembers)))
    \<and> (\<exists>result. getMITMembersOfList client listName = Inr result
          \<and> set result
              = {lm_member m | m. m \<in> set allMembers \<and> lm_type m = USER}
                \<union> {k. bareKerb k
                       \<and> (\<exists>m \<in> set allMembers. lm_type m = KERBEROS
                            \<and> (lm_member m = k @ ''/root@ATHENA.MIT.EDU''
                                 \<or> lm_member m = k @ ''@ATHENA.MIT.EDU''
                                 \<or> lm_member m = k @ ''@MIT.EDU''))})
    \<and> getMITMembersOfList (membersClient exampleMembers) ''sipb'' = Inr [''abc'', ''xyz'']"
proof (intro conjI)
  let ?users = "map lm_member (filter (\<lambda>m. lm_type m = USER) allMembers)"
  let ?kerberos = "map lm_member (filter (\<lambda>m. lm_type m = KERBEROS) allMembers)"
  from assms(2) have "\<forall>u \<in> set (filterByType allMembers KERBEROS). plainMember u"
    by (auto simp: filterByType_def)
  then have "concat (map (athenaStep []) (filterByType allMembers KERBEROS))
               = List.map_filter (formKerb acceptedForms) (filterByType allMembers KERBEROS)"
    by (rule concat_athenaStep_formKerb)
  then show list: "getMITMembersOfList client listName
           = Inr (?users @ List.map_filter (formKerb acceptedForms) ?kerberos)"
    using getMITMembersOfList_concat [OF assms(1)] by (simp add: filterByType_def)
  have "set (?users @ List.map_filter (formKerb acceptedForms) ?kerberos)
          = {lm_member m | m. m \<in> set allMembers \<and> lm_type m = USER}
            \<union> {k. bareKerb k
                   \<and> (\<exists>m \<in> set allMembers. lm_type m = KERBEROS
                        \<and> (lm_member m = k @ ''/root@ATHENA.MIT.EDU''
                             \<or> lm_member m = k @ ''@ATHENA.MIT.EDU''
                             \<or> lm_member m = k @ ''@MIT.EDU''))}"
    by (auto simp: set_map_filter formKerb_accepted_forms)
  with list show "\<exists>result. getMITMembersOfList client listName = Inr result
          \<and> set result
              = {lm_member m | m. m \<in> set allMembers \<and> lm_type m = USER}
                \<union> {k. bareKerb k
                       \<and> (\<exists>m \<in> set allMembers. lm_type m = KERBEROS
                            \<and> (lm_member m = k @ ''/root@ATHENA.MIT.EDU''
                                 \<or> lm_member m = k @ ''@ATHENA.MIT.EDU''
                                 \<or> lm_member m = k @ ''@MIT.EDU''))}"
    by blast
  show "getMITMembersOfList (membersClient exampleMembers) ''sipb'' = Inr [''abc'', ''xyz'']"
    by (simp add: getMITMembersOfList_def getMembersOfList_membersClient filterByType_def
        exampleMembers_def athenaStep_def destructure2_def)
qed

theorem mit_members_by_form_witness:
  "getMembersOfList (membersClient exampleMembers) ''sipb'' True = Inr (Some exampleMembers)
   \<and> plainMember ''xyz/root@ATHENA.MIT.EDU'' \<and> plainMember ''foo@CORP.EXAMPLE''
   \<and> getMITMembersOfList (membersClient exampleMembers) ''sipb''
       = Inr (map lm_member (filter (\<lambda>m. lm_type m = USER) exampleMembers)
              @ List.map_filter (formKerb acceptedForms)
                  (map lm_member (filter (\<lambda>m. lm_type m = KERBEROS) exampleMembers)))
   \<and> map lm_member (filter (\<lambda>m. lm_type m = USER) exampleMembers) = [''abc'']
   \<and> List.map_filter (formKerb acceptedForms)
         (map lm_member (filter (\<lambda>m. lm_type m = KERBEROS) exampleMembers)) = [''xyz'']"
proof -
  have h1: "getMembersOfList (membersClient exampleMembers) ''sipb'' True
              = Inr (Some exampleMembers)"
    by (rule getMembersOfList_membersClient)
  have h2: "\<forall>m \<in> set exampleMembers. lm_type m = KERBEROS \<longrightarrow> plainMember (lm_member m)"
    by (simp add: exampleMembers_def plainMember_def)
  have users: "map lm_member (filter (\<lambda>m. lm_type m = USER) exampleMembers) = [''abc'']"
    by (simp add: exampleMembers_def)
  have kerbs: "List.map_filter (formKerb acceptedForms)
         (map lm_member (filter (\<lambda>m. lm_type m = KERBEROS) exampleMembers)) = [''xyz'']"
    by (simp add: exampleMembers_def acceptedForms_def stripSuffix_def
        bareKerb_def)
  have h3: "plainMember ''xyz/root@ATHENA.MIT.EDU'' \<and> plainMember ''foo@CORP.EXAMPLE''"
    by (simp add: plainMember_def)
  from mit_members_by_form [OF h1 h2] h1 h3 users kerbs show ?thesis
    by blast
qed

text \<open>
  C1 as it is worded fails: \<open>xyz/root@MIT.EDU\<close> has the form \<open>kerb/root@REALM\<close> with
  one of the two realms the code accepts, and \<open>getMITMembersOfList\<close> leaves it out.
  The \<open>/root\<close> form is compared with \<open>root@ATHENA.MIT.EDU\<close> only.
\<close>

theorem root_at_MIT_EDU_is_left_out:
  "formKerb statedForms ''xyz/root@MIT.EDU'' = Some ''xyz''
   \<and> plainMember ''xyz/root@MIT.EDU''
   \<and> getMITMembersOfList (membersClient rootMitMembers) ''sipb'' = Inr []"
  by (simp add: statedForms_def stripSuffix_def bareKerb_def plainMember_def
      getMITMembersOfList_def getMembersOfList_membersClient filterByType_def
      rootMitMembers_def athenaStep_def destructure2_def)

section \<open>Properties of the user name\<close>

lemma replace_gap:
  "\<not> doubleSpace f \<Longrightarrow> replace (f @ ''  '' @ l) ''  '' '' '' = f @ '' '' @ l"
  by (induction f rule: doubleSpace.induct) (auto simp: startsWith_def)

text \<open>
  With an empty middle name and a first name that has no two spaces in a row,
  \<open>getUserName\<close> is the first and the last name with one space between them.
\<close>

lemma getUserName_empty_middle:
  assumes "getUserAttributes client kerb = Inr (Some attributes)"
    and "ua_middle attributes = ''''"
    and "\<not> doubleSpace (ua_first attributes)"
  shows "getUserName client kerb = Inr (ua_first attributes @ '' '' @ ua_last attributes)"
  using assms replace_gap [of "ua_first attributes" "ua_last attributes"]
  by (simp add: getUserName_def)

text \<open>
  C8. \<open>replace\<close> with a string pattern replaces the first occurrence only. For a user
  with an empty middle name whose first name is \<open>Mary  Ann\<close>, with two spaces, the
  occurrence it replaces is the one inside the first name: the result is
  \<open>Mary Ann  Smith\<close>, where the first name has lost a space and two spaces are left
  before the last name, and not \<open>Mary  Ann Smith\<close>.
\<close>

theorem getUserName_two_spaces_in_first_name:
  "ua_middle (userRecord ''Mary  Ann'' '''' ''Smith'') = ''''
   \<and> getUserName (userClient (userRecord ''Mary  Ann'' '''' ''Smith'')) ''msmith''
       = Inr ''Mary Ann  Smith''
   \<and> getUserName (userClient (userRecord ''Mary  Ann'' '''' ''Smith'')) ''msmith''
       \<noteq> Inr (''Mary  Ann'' @ '' '' @ ''Smith'')"
  by (simp add: getUserName_def getUserAttributes_def apiCall_def index0_def userClient_def
      userRecord_def startsWith_def)

section \<open>Properties of identity extraction\<close>




text \<open>The group is greedy: it ends at the last \<open>:\<close> that has a character after it.\<close>

lemma extractLocalpart_greedy:
  "extractLocalpart ''@jdoe:example.org:8448'' = Inr ''jdoe:example.org''"
  by (simp add: extractLocalpart_def matchAfterAt_def dot_def colonDots_def)

lemma extractLocalpart_jdoe: "extractLocalpart ''@jdoe:example.org'' = Inr ''jdoe''"
  by (simp add: extractLocalpart_def matchAfterAt_def dot_def colonDots_def)




section \<open>Properties of the command handlers\<close>

lemma startsWith_iff: "startsWith s p \<longleftrightarrow> (\<exists>r. s = p @ r)"
proof
  assume "startsWith s p"
  then have "s = p @ drop (length p) s"
    by (metis append_take_drop_id startsWith_def)
  then show "\<exists>r. s = p @ r" ..
next
  assume "\<exists>r. s = p @ r"
  then show "startsWith s p" by (auto simp: startsWith_def)
qed

lemma startsWith_canvas_2023:
  "startsWith name ''canvas-2023'' \<Longrightarrow> startsWith name ''canvas''"
  by (auto simp: startsWith_iff)

lemma filter_canvas_2023:
  "filter (\<lambda>name. startsWith name ''canvas-2023'')
     (filter (\<lambda>name. startsWith name ''canvas'') xs)
   = filter (\<lambda>name. startsWith name ''canvas-2023'') xs"
  by (induction xs) (auto dest: startsWith_canvas_2023)

lemma myclasses_not_hello: "startsWith b ''!myclasses'' \<Longrightarrow> \<not> startsWith b ''!hello''"
  by (auto simp: startsWith_iff)

text \<open>
  C4, as the code has it. Both handlers make no call and raise nothing unless
  \<open>content.msgtype\<close> is the string \<open>m.text\<close> and the sender is not the bot itself.
\<close>

theorem no_reply_unless_m_text_from_another:
  "contentMsgtype event \<noteq> Some ''m.text'' \<or> sender event = userId env \<Longrightarrow>
     handleCommand env roomId event = Inr [] \<and> handleCommand_hello env roomId event = Inr []"
  by (auto simp: handleCommand_def handleCommand_hello_def)

theorem no_reply_unless_m_text_from_another_witness:
  "contentMsgtype (textEvent ''@jdoe:example.org'' ''text'' ''!hello'') \<noteq> Some ''m.text''
   \<and> handleCommand (botEnv nullClient) ''!room:example.org''
        (textEvent ''@jdoe:example.org'' ''text'' ''!hello'') = Inr []
   \<and> handleCommand_hello (botEnv nullClient) ''!room:example.org''
        (textEvent ''@jdoe:example.org'' ''text'' ''!hello'') = Inr []"
proof -
  have h: "contentMsgtype (textEvent ''@jdoe:example.org'' ''text'' ''!hello'') \<noteq> Some ''m.text''
     \<or> sender (textEvent ''@jdoe:example.org'' ''text'' ''!hello'') = userId (botEnv nullClient)"
    by (simp add: contentMsgtype_def textEvent_def)
  have t: "contentMsgtype (textEvent ''@jdoe:example.org'' ''text'' ''!hello'') \<noteq> Some ''m.text''"
    by (simp add: contentMsgtype_def textEvent_def)
  show ?thesis
    using t no_reply_unless_m_text_from_another [OF h, of "''!room:example.org''"] by simp
qed

text \<open>
  C4 as it is worded fails: the message type the handlers accept is \<open>m.text\<close>, not
  \<open>text\<close>. An event whose type is not \<open>text\<close> is answered.
\<close>

theorem m_text_event_is_answered:
  "contentMsgtype (textEvent ''@jdoe:example.org'' ''m.text'' ''!hello'') \<noteq> Some ''text''
   \<and> sender (textEvent ''@jdoe:example.org'' ''m.text'' ''!hello'') \<noteq> userId (botEnv nullClient)
   \<and> handleCommand (botEnv nullClient) ''!room:example.org''
        (textEvent ''@jdoe:example.org'' ''m.text'' ''!hello'')
      = Inr [ReplyNotice ''!room:example.org''
               (textEvent ''@jdoe:example.org'' ''m.text'' ''!hello'') ''Hello world!'']"
  by (simp add: handleCommand_def contentMsgtype_def contentBody_def textEvent_def botEnv_def
      extractLocalpart_jdoe startsWith_def)

text \<open>
  C5, as the code has it. For an \<open>m.text\<close> event from another user whose body starts
  with \<open>!hello\<close>, the handler that knows \<open>!hello\<close> only replies \<open>Hello world!\<close>; the
  handler with the directory commands replies \<open>Hello world!\<close> when the sender's
  identifier is one \<open>extractLocalpart\<close> accepts.
\<close>

theorem hello_replies_hello_world:
  assumes "contentMsgtype event = Some ''m.text''"
    and "sender event \<noteq> userId env"
    and "contentBody event = Some b"
    and "startsWith b ''!hello''"
  shows "handleCommand_hello env roomId event = Inr [ReplyNotice roomId event ''Hello world!'']
    \<and> (\<forall>username. extractLocalpart (sender event) = Inr username \<longrightarrow>
          handleCommand env roomId event = Inr [ReplyNotice roomId event ''Hello world!''])"
  using assms by (simp add: handleCommand_def handleCommand_hello_def)

theorem hello_replies_hello_world_witness:
  "contentMsgtype (textEvent ''@jdoe:example.org'' ''m.text'' ''!hello there'') = Some ''m.text''
   \<and> sender (textEvent ''@jdoe:example.org'' ''m.text'' ''!hello there'')
       \<noteq> userId (botEnv nullClient)
   \<and> contentBody (textEvent ''@jdoe:example.org'' ''m.text'' ''!hello there'')
       = Some ''!hello there''
   \<and> startsWith ''!hello there'' ''!hello''
   \<and> extractLocalpart (sender (textEvent ''@jdoe:example.org'' ''m.text'' ''!hello there''))
       = Inr ''jdoe''
   \<and> handleCommand_hello (botEnv nullClient) ''!room:example.org''
        (textEvent ''@jdoe:example.org'' ''m.text'' ''!hello there'')
      = Inr [ReplyNotice ''!room:example.org''
               (textEvent ''@jdoe:example.org'' ''m.text'' ''!hello there'') ''Hello world!'']
   \<and> handleCommand (botEnv nullClient) ''!room:example.org''
        (textEvent ''@jdoe:example.org'' ''m.text'' ''!hello there'')
      = Inr [ReplyNotice ''!room:example.org''
               (textEvent ''@jdoe:example.org'' ''m.text'' ''!hello there'') ''Hello world!'']"
proof -
  let ?ev = "textEvent ''@jdoe:example.org'' ''m.text'' ''!hello there''"
  have h1: "contentMsgtype ?ev = Some ''m.text''"
    by (simp add: contentMsgtype_def textEvent_def)
  have h2: "sender ?ev \<noteq> userId (botEnv nullClient)"
    by (simp add: textEvent_def botEnv_def)
  have h3: "contentBody ?ev = Some ''!hello there''"
    by (simp add: contentBody_def textEvent_def)
  have h4: "startsWith ''!hello there'' ''!hello''"
    by (simp add: startsWith_def)
  have h5: "extractLocalpart (sender ?ev) = Inr ''jdoe''"
    by (simp add: textEvent_def extractLocalpart_jdoe)
  show ?thesis
    using h1 h2 h3 h4 h5 hello_replies_hello_world [OF h1 h2 h3 h4, of "''!room:example.org''"]
    by simp
qed

text \<open>
  C5 as it is worded fails for the handler with the directory commands: it extracts
  the user name before it looks at the body, so \<open>!hello\<close> from a sender whose
  identifier does not parse throws, and there is no reply.
\<close>

theorem hello_from_unparsable_sender_throws:
  "contentMsgtype (textEvent ''jdoe'' ''m.text'' ''!hello'') = Some ''m.text''
   \<and> sender (textEvent ''jdoe'' ''m.text'' ''!hello'') \<noteq> userId (botEnv nullClient)
   \<and> contentBody (textEvent ''jdoe'' ''m.text'' ''!hello'') = Some ''!hello''
   \<and> startsWith ''!hello'' ''!hello''
   \<and> handleCommand (botEnv nullClient) ''!room:example.org''
        (textEvent ''jdoe'' ''m.text'' ''!hello'') = Inl TypeError"
  by (simp add: handleCommand_def contentMsgtype_def contentBody_def textEvent_def botEnv_def
      extractLocalpart_def startsWith_def)

text \<open>
  C7, as the code has it. For an \<open>m.text\<close> event from another user whose sender
  identifier \<open>extractLocalpart\<close> accepts and whose body is a string that starts with
  none of \<open>!hello\<close>, \<open>!myclasses\<close>, \<open>!myname\<close>, the handler makes no call and raises
  nothing.
\<close>

theorem unmatched_body_is_ignored:
  assumes "contentMsgtype event = Some ''m.text''"
    and "sender event \<noteq> userId env"
    and "extractLocalpart (sender event) = Inr username"
    and "contentBody event = Some b"
    and "\<not> startsWith b ''!hello''"
    and "\<not> startsWith b ''!myclasses''"
    and "\<not> startsWith b ''!myname''"
  shows "handleCommand env roomId event = Inr []"
  using assms by (simp add: handleCommand_def)

theorem unmatched_body_is_ignored_witness:
  "contentMsgtype (textEvent ''@jdoe:example.org'' ''m.text'' ''good morning'') = Some ''m.text''
   \<and> sender (textEvent ''@jdoe:example.org'' ''m.text'' ''good morning'')
       \<noteq> userId (botEnv nullClient)
   \<and> extractLocalpart (sender (textEvent ''@jdoe:example.org'' ''m.text'' ''good morning''))
       = Inr ''jdoe''
   \<and> contentBody (textEvent ''@jdoe:example.org'' ''m.text'' ''good morning'')
       = Some ''good morning''
   \<and> \<not> startsWith ''good morning'' ''!hello''
   \<and> \<not> startsWith ''good morning'' ''!myclasses''
   \<and> \<not> startsWith ''good morning'' ''!myname''
   \<and> handleCommand (botEnv nullClient) ''!room:example.org''
        (textEvent ''@jdoe:example.org'' ''m.text'' ''good morning'') = Inr []"
proof -
  let ?ev = "textEvent ''@jdoe:example.org'' ''m.text'' ''good morning''"
  have h1: "contentMsgtype ?ev = Some ''m.text''"
    by (simp add: contentMsgtype_def textEvent_def)
  have h2: "sender ?ev \<noteq> userId (botEnv nullClient)"
    by (simp add: textEvent_def botEnv_def)
  have h3: "extractLocalpart (sender ?ev) = Inr ''jdoe''"
    by (simp add: textEvent_def extractLocalpart_jdoe)
  have h4: "contentBody ?ev = Some ''good morning''"
    by (simp add: contentBody_def textEvent_def)
  have h5: "\<not> startsWith ''good morning'' ''!hello''"
    by (simp add: startsWith_def)
  have h6: "\<not> startsWith ''good morning'' ''!myclasses''"
    by (simp add: startsWith_def)
  have h7: "\<not> startsWith ''good morning'' ''!myname''"
    by (simp add: startsWith_def)
  show ?thesis
    using h1 h2 h3 h4 h5 h6 h7
      unmatched_body_is_ignored [OF h1 h2 h3 h4 h5 h6 h7, of "''!room:example.org''"]
    by simp
qed

text \<open>
  C7 as it is worded fails: an unmatched body from a sender whose identifier does not
  parse throws, because the user name is extracted before the body is looked at.
\<close>

theorem unmatched_body_from_unparsable_sender_throws:
  "contentMsgtype (textEvent ''jdoe'' ''m.text'' ''good morning'') = Some ''m.text''
   \<and> sender (textEvent ''jdoe'' ''m.text'' ''good morning'') \<noteq> userId (botEnv nullClient)
   \<and> \<not> startsWith ''good morning'' ''!hello''
   \<and> \<not> startsWith ''good morning'' ''!myclasses''
   \<and> \<not> startsWith ''good morning'' ''!myname''
   \<and> handleCommand (botEnv nullClient) ''!room:example.org''
        (textEvent ''jdoe'' ''m.text'' ''good morning'') = Inl TypeError"
  by (simp add: handleCommand_def contentMsgtype_def contentBody_def textEvent_def botEnv_def
      extractLocalpart_def startsWith_def)

text \<open>
  C2. When \<open>getUserLists\<close> gives the lists \<open>L\<close> of a user, \<open>getUserClasses\<close> returns the
  elements of \<open>L\<close> that start with \<open>canvas\<close>, in order, and the reply of the
  \<open>!myclasses\<close> command is made of the elements of \<open>L\<close> that start with
  \<open>canvas-2023\<close>, one on each line. On the lists \<open>canvas-2023-6.004\<close>, \<open>sipb-board\<close>,
  \<open>canvas-archive\<close> the first gives \<open>canvas-2023-6.004\<close> and \<open>canvas-archive\<close>, the
  second \<open>canvas-2023-6.004\<close> alone.
\<close>

theorem classes_library_prefix_and_handler_prefix:
  assumes "getUserLists client kerb = Inr (Some userLists)"
  shows "getUserClasses client kerb = Inr (filter (\<lambda>name. startsWith name ''canvas'') userLists)
    \<and> (\<forall>(env :: Env) roomId event b.
          moira env = client \<and> contentMsgtype event = Some ''m.text''
          \<and> sender event \<noteq> userId env \<and> extractLocalpart (sender event) = Inr kerb
          \<and> contentBody event = Some b \<and> startsWith b ''!myclasses'' \<longrightarrow>
          handleCommand env roomId event
            = Inr [ReplyNotice roomId event
                     (join (filter (\<lambda>name. startsWith name ''canvas-2023'') userLists)
                        [CHR 0x0A])])
    \<and> getUserClasses classesClient ''abc'' = Inr [''canvas-2023-6.004'', ''canvas-archive'']
    \<and> handleCommand (botEnv classesClient) ''!room:example.org''
         (textEvent ''@abc:example.org'' ''m.text'' ''!myclasses'')
       = Inr [ReplyNotice ''!room:example.org''
                (textEvent ''@abc:example.org'' ''m.text'' ''!myclasses'') ''canvas-2023-6.004'']"
proof (intro conjI allI impI)
  show lib: "getUserClasses client kerb
               = Inr (filter (\<lambda>name. startsWith name ''canvas'') userLists)"
    using assms by (simp add: getUserClasses_def)
  show "getUserClasses classesClient ''abc'' = Inr [''canvas-2023-6.004'', ''canvas-archive'']"
    by (simp add: getUserClasses_def getUserLists_def apiCall_def classesClient_def
        startsWith_def)
  show "handleCommand (botEnv classesClient) ''!room:example.org''
         (textEvent ''@abc:example.org'' ''m.text'' ''!myclasses'')
       = Inr [ReplyNotice ''!room:example.org''
                (textEvent ''@abc:example.org'' ''m.text'' ''!myclasses'') ''canvas-2023-6.004'']"
    by (simp add: handleCommand_def contentMsgtype_def contentBody_def textEvent_def botEnv_def
        extractLocalpart_def matchAfterAt_def dot_def colonDots_def
        getUserClasses_def getUserLists_def apiCall_def classesClient_def startsWith_def)
  fix env :: Env and roomId event b
  assume h: "moira env = client \<and> contentMsgtype event = Some ''m.text''
          \<and> sender event \<noteq> userId env \<and> extractLocalpart (sender event) = Inr kerb
          \<and> contentBody event = Some b \<and> startsWith b ''!myclasses''"
  then have "\<not> startsWith b ''!hello''" by (simp add: myclasses_not_hello)
  with h lib show "handleCommand env roomId event
            = Inr [ReplyNotice roomId event
                     (join (filter (\<lambda>name. startsWith name ''canvas-2023'') userLists)
                        [CHR 0x0A])]"
    by (simp add: handleCommand_def filter_canvas_2023 del: filter_filter)
qed

theorem classes_library_prefix_and_handler_prefix_witness:
  "getUserLists classesClient ''abc''
     = Inr (Some [''canvas-2023-6.004'', ''sipb-board'', ''canvas-archive''])
   \<and> getUserClasses classesClient ''abc''
     = Inr (filter (\<lambda>name. startsWith name ''canvas'')
              [''canvas-2023-6.004'', ''sipb-board'', ''canvas-archive''])
   \<and> handleCommand (botEnv classesClient) ''!room:example.org''
        (textEvent ''@abc:example.org'' ''m.text'' ''!myclasses now'')
     = Inr [ReplyNotice ''!room:example.org''
              (textEvent ''@abc:example.org'' ''m.text'' ''!myclasses now'')
              (join (filter (\<lambda>name. startsWith name ''canvas-2023'')
                       [''canvas-2023-6.004'', ''sipb-board'', ''canvas-archive'']) [CHR 0x0A])]"
proof -
  let ?ev = "textEvent ''@abc:example.org'' ''m.text'' ''!myclasses now''"
  have h: "getUserLists classesClient ''abc''
     = Inr (Some [''canvas-2023-6.004'', ''sipb-board'', ''canvas-archive''])"
    by (simp add: getUserLists_def apiCall_def classesClient_def)
  have e: "moira (botEnv classesClient) = classesClient
      \<and> contentMsgtype ?ev = Some ''m.text''
      \<and> sender ?ev \<noteq> userId (botEnv classesClient)
      \<and> extractLocalpart (sender ?ev) = Inr ''abc''
      \<and> contentBody ?ev = Some ''!myclasses now''
      \<and> startsWith ''!myclasses now'' ''!myclasses''"
    by (simp add: botEnv_def contentMsgtype_def contentBody_def textEvent_def startsWith_def
        extractLocalpart_def matchAfterAt_def dot_def colonDots_def)
  from classes_library_prefix_and_handler_prefix [OF h] e h show ?thesis
    by blast
qed

end
